theory Spec2Isabelle
  imports
    Complex_Main
    "HOL-Library.Multiset"
    "HOL-Library.Char_ord"
    "HOL-Library.List_Lexorder"
begin

section \<open>The aggregation layer of the LoRa surveillance API (backend/main.py)\<close>

text \<open>
  The service has two read paths, \<open>_load_logs\<close> and \<open>_load_images\<close>, and two route
  handlers, \<open>get_logs\<close> and \<open>get_images\<close>, that wrap them. Each handler reads the persisted
  state afresh, so a handler is modelled as a function of the state it observes:
  the log document for the first pair, the image directory for the second.
  A raised exception is the left injection of a sum type.
\<close>

subsection \<open>Values produced by \<open>json.loads\<close>\<close>

text \<open>
  A Python \<open>str\<close> is represented by the bytes of its UTF-8 encoding: the lexicographic
  order of these byte strings is the code point order that Python's comparison of \<open>str\<close>
  uses. A Python \<open>float\<close> is the exact value of the double, an infinity or NaN (the decoder
  accepts the literals \<open>NaN\<close>, \<open>Infinity\<close> and \<open>-Infinity\<close>). A \<open>dict\<close> is an association
  list in insertion order; the decoder keeps one binding for each key.
\<close>

datatype pyfloat = Finite rat | PosInf | NegInf | NaN

datatype json =
    JNull
  | JBool bool
  | JInt int
  | JFloat pyfloat
  | JStr string
  | JArr "json list"
  | JObj "(string \<times> json) list"

subsection \<open>Exceptions and results\<close>

text \<open>
  The body of the \<open>try\<close> block of \<open>_load_logs\<close>,
  \<open>json.loads(LOG_PATH.read_text(encoding="utf-8"))\<close>, can raise
  \<open>JSONDecodeError\<close> when the text is no JSON document (the argument is \<open>str\<close> of the
  exception), \<open>UnicodeDecodeError\<close> when the bytes of the file are no UTF-8,
  \<open>RecursionError\<close> when arrays or objects are nested too deep, \<open>ValueError\<close> when an
  integer literal has more digits than the interpreter converts, and \<open>OSError\<close> when
  the path cannot be read as a file (\<open>ReadOSError\<close>).
\<close>

datatype read_error =
    JSONDecodeError string
  | UnicodeDecodeError
  | RecursionError
  | ValueError
  | ReadOSError

text \<open>
  \<open>HTTPException status detail\<close> is the only exception the program raises itself.
  The others come out of library calls the program does not guard: \<open>Propagated e\<close> is
  an exception \<open>e\<close> of the \<open>try\<close> block that the \<open>except\<close> clause does not catch,
  \<open>AttributeError\<close> comes from \<open>e.get\<close> on a value that is no \<open>dict\<close>, \<open>TypeError\<close> from
  an unsupported \<open><\<close> during sorting, \<open>OSError\<close> from \<open>iterdir\<close> or \<open>file.stat()\<close>, and
  \<open>TimestampOutOfRange\<close> stands for the \<open>ValueError\<close>, \<open>OverflowError\<close> or \<open>OSError\<close> of
  \<open>datetime.fromtimestamp\<close> on a time outside the years 1 to 9999.
\<close>

datatype py_exn =
    HTTPException nat string
  | Propagated read_error
  | AttributeError
  | TypeError
  | OSError
  | TimestampOutOfRange

type_synonym 'a result = "py_exn + 'a"

text \<open>
  FastAPI answers an \<open>HTTPException\<close> with its own status code and detail, and any
  other exception with status 500 and no detail. It answers a returned value with
  status 200 when it can render the value as JSON; \<open>status_code\<close> leaves the rendering
  out, which fails (status 500) on a response that holds NaN, an infinity or a string
  with a lone surrogate. Below \<open>status_code\<close> is applied to exceptions and to the empty
  response only.
\<close>

definition status_code :: "'a result \<Rightarrow> nat" where
  "status_code r =
     (case r of
        Inr v \<Rightarrow> 200
      | Inl (HTTPException code detail) \<Rightarrow> code
      | Inl other \<Rightarrow> 500)"

subsection \<open>The log document\<close>

text \<open>
  \<open>LOG_PATH\<close> either does not exist (\<open>NoFile\<close>) or exists. When it exists, the state
  records what the body of the \<open>try\<close> block yields: \<open>Inl e\<close> when it raises \<open>e\<close>,
  \<open>Inr v\<close> when the decoder returns the value \<open>v\<close>. The \<open>except\<close> clause catches
  \<open>JSONDecodeError\<close> and nothing else.
\<close>

datatype log_path = NoFile | File "read_error + json"

definition load_logs :: "log_path \<Rightarrow> json list result" where
  "load_logs p =
     (case p of
        NoFile \<Rightarrow> Inr []
      | File outcome \<Rightarrow>
          (case outcome of
             Inl (JSONDecodeError exc) \<Rightarrow>
               Inl (HTTPException 500 (''Corrupt logs.json: '' @ exc))
           | Inl uncaught \<Rightarrow> Inl (Propagated uncaught)
           | Inr raw \<Rightarrow>
               (case raw of
                  JArr xs \<Rightarrow> Inr xs
                | other \<Rightarrow> Inl (HTTPException 500 ''logs.json should contain a JSON array''))))"

subsection \<open>Python's comparison of decoded values\<close>

text \<open>
  \<open>bool\<close> is a subclass of \<open>int\<close>, and \<open>int\<close> and \<open>float\<close> compare by exact value, so
  the three numeric types share one view. Every comparison with NaN is false.
\<close>

fun numeric :: "json \<Rightarrow> pyfloat option" where
  "numeric (JBool b) = Some (Finite (of_bool b))"
| "numeric (JInt i) = Some (Finite (of_int i))"
| "numeric (JFloat f) = Some f"
| "numeric v = None"

fun float_lt :: "pyfloat \<Rightarrow> pyfloat \<Rightarrow> bool" where
  "float_lt NaN y = False"
| "float_lt x NaN = False"
| "float_lt (Finite a) (Finite b) = (a < b)"
| "float_lt (Finite a) PosInf = True"
| "float_lt NegInf (Finite b) = True"
| "float_lt NegInf PosInf = True"
| "float_lt x y = False"

text \<open>
  Comparing two lists, Python skips the leading items that are the same object or equal
  and compares the first pair that is neither. \<open>py_same\<close> is that test on decoded values:
  equality of \<open>str\<close>, numeric equality across the numeric types, \<open>None\<close> with \<open>None\<close>,
  lists item by item, dicts as maps. The decoder returns one shared object for every
  \<open>NaN\<close> literal, so two NaN are the same item although \<open>NaN == NaN\<close> is false.
\<close>

fun py_same :: "json \<Rightarrow> json \<Rightarrow> bool"
  and same_list :: "json list \<Rightarrow> json list \<Rightarrow> bool"
  and same_dict :: "(string \<times> json) list \<Rightarrow> (string \<times> json) list \<Rightarrow> bool" where
  "py_same JNull JNull = True"
| "py_same (JStr a) (JStr b) = (a = b)"
| "py_same (JArr xs) (JArr ys) = same_list xs ys"
| "py_same (JObj d) (JObj d') = (length d = length d' \<and> same_dict d d')"
| "py_same x y = (numeric x \<noteq> None \<and> numeric x = numeric y)"
| "same_list [] [] = True"
| "same_list (x # xs) (y # ys) = (py_same x y \<and> same_list xs ys)"
| "same_list xs ys = False"
| "same_dict [] d' = True"
| "same_dict ((k, v) # d) d' =
     ((case map_of d' k of None \<Rightarrow> False | Some w \<Rightarrow> py_same v w) \<and> same_dict d d')"

text \<open>
  \<open>x < y\<close>: defined between two \<open>str\<close>, between two numbers and between two lists;
  every other pair of decoded values raises \<open>TypeError\<close>.
\<close>

fun py_lt :: "json \<Rightarrow> json \<Rightarrow> bool result"
  and lt_list :: "json list \<Rightarrow> json list \<Rightarrow> bool result" where
  "py_lt (JStr a) (JStr b) = Inr (a < b)"
| "py_lt (JArr xs) (JArr ys) = lt_list xs ys"
| "py_lt x y =
     (case numeric x of
        None \<Rightarrow> Inl TypeError
      | Some a \<Rightarrow> (case numeric y of None \<Rightarrow> Inl TypeError | Some b \<Rightarrow> Inr (float_lt a b)))"
| "lt_list [] [] = Inr False"
| "lt_list [] (y # ys) = Inr True"
| "lt_list (x # xs) [] = Inr False"
| "lt_list (x # xs) (y # ys) = (if py_same x y then lt_list xs ys else py_lt x y)"

subsection \<open>\<open>sorted\<close> and \<open>list.sort\<close> with a key function\<close>

text \<open>
  CPython first calls the key function on every element, in order, and an exception
  raised there ends the sort before any comparison. It then sorts the keys, moving each
  element with its key, and compares keys with \<open><\<close> only. With \<open>reverse=True\<close> it reverses
  the list, sorts it ascending and stably, and reverses the result, which keeps elements
  with equal keys in their original order.

  The stable sort is modelled by insertion: \<open>insort_lt x ys\<close> puts \<open>x\<close> in front of the
  first element that is not smaller than \<open>x\<close>. CPython's own algorithm chooses other
  pairs to compare. The two agree in two cases. When all keys are \<open>str\<close>, \<open><\<close> is a
  total order and every stable sort returns the same list. When one key is a \<open>str\<close> and
  another is not, both raise \<open>TypeError\<close>: with two or more elements every element
  takes part in some comparison, no comparison of a \<open>str\<close> with another kind of value
  returns, and a comparison raises nothing but \<open>TypeError\<close>. Outside these cases, where
  \<open><\<close> is no strict weak order on the keys (a NaN among numbers, lists with items
  that cannot be compared), CPython can return another order than the model, or raise
  where the model returns; the properties below stay within the two cases.
\<close>

fun sort_keys :: "('a \<Rightarrow> json result) \<Rightarrow> 'a list \<Rightarrow> json list result" where
  "sort_keys key [] = Inr []"
| "sort_keys key (x # xs) =
     (case key x of
        Inl e \<Rightarrow> Inl e
      | Inr k \<Rightarrow> (case sort_keys key xs of Inl e \<Rightarrow> Inl e | Inr ks \<Rightarrow> Inr (k # ks)))"

fun insort_lt :: "json \<times> 'a \<Rightarrow> (json \<times> 'a) list \<Rightarrow> (json \<times> 'a) list result" where
  "insort_lt x [] = Inr [x]"
| "insort_lt x (y # ys) =
     (case py_lt (fst y) (fst x) of
        Inl e \<Rightarrow> Inl e
      | Inr smaller \<Rightarrow>
          if smaller
          then (case insort_lt x ys of Inl e \<Rightarrow> Inl e | Inr zs \<Rightarrow> Inr (y # zs))
          else Inr (x # y # ys))"

fun sort_lt :: "(json \<times> 'a) list \<Rightarrow> (json \<times> 'a) list result" where
  "sort_lt [] = Inr []"
| "sort_lt (x # xs) = (case sort_lt xs of Inl e \<Rightarrow> Inl e | Inr ys \<Rightarrow> insort_lt x ys)"

definition py_sorted :: "('a \<Rightarrow> json result) \<Rightarrow> bool \<Rightarrow> 'a list \<Rightarrow> 'a list result" where
  "py_sorted key reverse xs =
     (case sort_keys key xs of
        Inl e \<Rightarrow> Inl e
      | Inr ks \<Rightarrow>
          (case sort_lt (if reverse then rev (zip ks xs) else zip ks xs) of
             Inl e \<Rightarrow> Inl e
           | Inr s \<Rightarrow> Inr (map snd (if reverse then rev s else s))))"

subsection \<open>The logs endpoint\<close>

text \<open>\<open>d.get(k, dflt)\<close> on a \<open>dict\<close>.\<close>

definition dict_get :: "(string \<times> json) list \<Rightarrow> string \<Rightarrow> json \<Rightarrow> json" where
  "dict_get d k dflt = (case map_of d k of None \<Rightarrow> dflt | Some v \<Rightarrow> v)"

text \<open>
  The sort key \<open>lambda e: e.get("timestamp", "")\<close>. Of the decoded values only a \<open>dict\<close>
  has a \<open>get\<close> attribute.
\<close>

fun timestamp_key :: "json \<Rightarrow> json result" where
  "timestamp_key (JObj d) = Inr (dict_get d ''timestamp'' (JStr ''''))"
| "timestamp_key v = Inl AttributeError"

record logs_response =
  events :: "json list"
  total :: nat

definition get_logs :: "log_path \<Rightarrow> logs_response result" where
  "get_logs p =
     (case load_logs p of
        Inl e \<Rightarrow> Inl e
      | Inr evs \<Rightarrow>
          (case py_sorted timestamp_key True evs of
             Inl e \<Rightarrow> Inl e
           | Inr events_sorted \<Rightarrow>
               Inr \<lparr>events = events_sorted, total = length events_sorted\<rparr>))"

subsection \<open>The image directory\<close>

text \<open>
  An entry of the directory has its base name, its kind, and the outcome of
  \<open>file.stat()\<close>: \<open>None\<close> when the call raises \<open>OSError\<close> (a dangling symbolic link, an
  entry removed since the listing), otherwise the modification time \<open>st_mtime\<close> counted
  in microseconds since the epoch (\<open>datetime.fromtimestamp\<close> rounds the floating-point
  seconds of \<open>os.stat\<close> to whole microseconds; that rounding is taken as done).
\<close>

datatype entry_kind = RegularFile | Subdirectory | OtherEntry

record dir_entry =
  name :: string
  kind :: entry_kind
  stat :: "int option"

text \<open>
  \<open>IMAGES_DIR\<close> either does not exist (\<open>None\<close>) or exists. When it exists, \<open>iterdir\<close>
  either raises \<open>OSError\<close> (the path is no directory, or may not be listed:
  \<open>Unlistable\<close>) or yields the direct entries, in an order that the entries and their
  modification times do not determine (\<open>Entries files\<close>, in the order of this
  enumeration).
\<close>

datatype listing = Unlistable | Entries "dir_entry list"

type_synonym images_dir = "listing option"

subsubsection \<open>\<open>PurePath.suffix\<close> and \<open>str.lower\<close>\<close>

text \<open>\<open>s.rfind(c)\<close>: the index of the last occurrence of \<open>c\<close>; \<open>None\<close> stands for \<open>-1\<close>.\<close>

fun rfind :: "char \<Rightarrow> string \<Rightarrow> nat option" where
  "rfind c [] = None"
| "rfind c (x # xs) =
     (case rfind c xs of
        Some i \<Rightarrow> Some (Suc i)
      | None \<Rightarrow> if x = c then Some 0 else None)"

text \<open>
  \<open>suffix\<close> as pathlib defines it up to Python 3.13: from the last dot of the name on,
  unless that dot is the first or the last character.
\<close>

definition suffix :: "string \<Rightarrow> string" where
  "suffix nm =
     (case rfind (CHR ''.'') nm of
        None \<Rightarrow> ''''
      | Some i \<Rightarrow> if 0 < i \<and> i < length nm - 1 then drop i nm else '''')"

text \<open>
  \<open>lower\<close> maps the letters \<open>A\<close> to \<open>Z\<close> to \<open>a\<close> to \<open>z\<close> and leaves every other byte as it is.
  Python also lowers letters outside ASCII; none of them becomes a letter of an allowed
  suffix, so the membership test of \<open>_load_images\<close> has the same outcome.
\<close>

definition lower_char :: "char \<Rightarrow> char" where
  "lower_char c =
     (if CHR ''A'' \<le> c \<and> c \<le> CHR ''Z'' then char_of (of_char c + (32 :: nat)) else c)"

definition lower :: "string \<Rightarrow> string" where
  "lower s = map lower_char s"

definition allowed_suffixes :: "string list" where
  "allowed_suffixes = [''.png'', ''.jpg'', ''.jpeg'', ''.gif'', ''.bmp'']"

subsubsection \<open>\<open>datetime.fromtimestamp(t, tz=timezone.utc).isoformat()\<close>\<close>

record datetime =
  year :: int
  month :: int
  day :: int
  hour :: int
  minute :: int
  second :: int
  microsecond :: int

definition days_before_month :: "int \<Rightarrow> int" where
  "days_before_month m = [0, 0, 31, 59, 90, 120, 151, 181, 212, 243, 273, 304, 334] ! nat m"

definition days_in_month :: "int \<Rightarrow> int" where
  "days_in_month m = [0, 31, 28, 31, 30, 31, 30, 31, 31, 30, 31, 30, 31] ! nat m"

text \<open>
  Year, month and day of a day ordinal of the proleptic Gregorian calendar (day 1 is
  0001-01-01), computed as the \<open>datetime\<close> module does.
\<close>

definition ord2ymd :: "int \<Rightarrow> int \<times> int \<times> int" where
  "ord2ymd ordinal =
     (let n = ordinal - 1;
          n400 = n div 146097; r400 = n mod 146097;
          n100 = r400 div 36524; r100 = r400 mod 36524;
          n4 = r100 div 1461; r4 = r100 mod 1461;
          n1 = r4 div 365; r1 = r4 mod 365;
          y = n400 * 400 + 1 + n100 * 100 + n4 * 4 + n1
      in if n1 = 4 \<or> n100 = 4 then (y - 1, 12, 31)
         else
           let leapyear = (n1 = 3 \<and> (n4 \<noteq> 24 \<or> n100 = 3));
               m = (r1 + 50) div 32;
               preceding = days_before_month m + (if m > 2 \<and> leapyear then 1 else 0)
           in if preceding > r1
              then
                let m' = m - 1;
                    preceding' =
                      preceding - (days_in_month m' + (if m' = 2 \<and> leapyear then 1 else 0))
                in (y, m', r1 - preceding' + 1)
              else (y, m, r1 - preceding + 1))"

text \<open>
  The epoch 1970-01-01 is day 719163. A \<open>datetime\<close> holds the years 1 to 9999 only;
  outside them the conversion raises.
\<close>

definition fromtimestamp :: "int \<Rightarrow> datetime result" where
  "fromtimestamp us =
     (let secs = us div 1000000;
          (y, m, d) = ord2ymd (secs div 86400 + 719163);
          s = secs mod 86400
      in if y < 1 \<or> 9999 < y then Inl TimestampOutOfRange
         else Inr \<lparr>year = y, month = m, day = d,
                   hour = s div 3600, minute = s mod 3600 div 60, second = s mod 60,
                   microsecond = us mod 1000000\<rparr>)"

text \<open>\<open>pad w n\<close>: the last \<open>w\<close> decimal digits of \<open>n\<close>, as \<open>%0wd\<close> prints a number below \<open>10 ^ w\<close>.\<close>

fun pad :: "nat \<Rightarrow> int \<Rightarrow> string" where
  "pad 0 n = ''''"
| "pad (Suc w) n = pad w (n div 10) @ [''0123456789'' ! nat (n mod 10)]"

text \<open>
  \<open>isoformat\<close> of a datetime whose \<open>tzinfo\<close> is \<open>timezone.utc\<close>: the fraction is printed
  only when the microseconds are not zero, the offset always.
\<close>

definition isoformat :: "datetime \<Rightarrow> string" where
  "isoformat dt =
     pad 4 (year dt) @ ''-'' @ pad 2 (month dt) @ ''-'' @ pad 2 (day dt)
     @ ''T'' @ pad 2 (hour dt) @ '':'' @ pad 2 (minute dt) @ '':'' @ pad 2 (second dt)
     @ (if microsecond dt = 0 then '''' else ''.'' @ pad 6 (microsecond dt))
     @ ''+00:00''"

subsubsection \<open>\<open>_load_images\<close> and \<open>get_images\<close>\<close>

record image_record =
  filename :: string
  url :: string
  timestamp :: string

text \<open>The body of the loop after the filter: the record appended for \<open>file\<close>.\<close>

definition image_item :: "dir_entry \<Rightarrow> image_record result" where
  "image_item file =
     (case stat file of
        None \<Rightarrow> Inl OSError
      | Some st_mtime \<Rightarrow>
          (case fromtimestamp st_mtime of
             Inl e \<Rightarrow> Inl e
           | Inr ts \<Rightarrow>
               Inr \<lparr>filename = name file,
                    url = ''/static/images/'' @ name file,
                    timestamp = isoformat ts\<rparr>))"

text \<open>The loop over \<open>IMAGES_DIR.iterdir()\<close>, with the list \<open>items\<close> built so far.\<close>

fun scan :: "dir_entry list \<Rightarrow> image_record list \<Rightarrow> image_record list result" where
  "scan [] items = Inr items"
| "scan (file # files) items =
     (if lower (suffix (name file)) \<notin> set allowed_suffixes then scan files items
      else
        (case image_item file of
           Inl e \<Rightarrow> Inl e
         | Inr item \<Rightarrow> scan files (items @ [item])))"

definition load_images :: "images_dir \<Rightarrow> image_record list result" where
  "load_images dir =
     (case dir of
        None \<Rightarrow> Inr []
      | Some Unlistable \<Rightarrow> Inl OSError
      | Some (Entries files) \<Rightarrow>
          (case scan files [] of
             Inl e \<Rightarrow> Inl e
           | Inr items \<Rightarrow> py_sorted (\<lambda>item. Inr (JStr (timestamp item))) True items))"

record images_response =
  images :: "image_record list"
  total_images :: nat

definition get_images :: "images_dir \<Rightarrow> images_response result" where
  "get_images dir =
     (case load_images dir of
        Inl e \<Rightarrow> Inl e
      | Inr imgs \<Rightarrow> Inr \<lparr>images = imgs, total_images = length imgs\<rparr>)"

subsection \<open>Notions for stating the properties\<close>

text \<open>Whether a sort key is a \<open>str\<close>, and the string it holds.\<close>

fun is_str :: "json \<Rightarrow> bool" where
  "is_str (JStr s) = True"
| "is_str v = False"

fun str_of :: "json \<Rightarrow> string" where
  "str_of (JStr s) = s"
| "str_of v = ''''"

text \<open>
  A log event in the sense of the data model: a JSON object whose \<open>timestamp\<close> field,
  when there is one, is a string. \<open>timestamp_of\<close> is that field, and the empty string
  for an event without it.
\<close>

fun is_log_event :: "json \<Rightarrow> bool" where
  "is_log_event (JObj d) = is_str (dict_get d ''timestamp'' (JStr ''''))"
| "is_log_event v = False"

fun timestamp_of :: "json \<Rightarrow> string" where
  "timestamp_of (JObj d) = str_of (dict_get d ''timestamp'' (JStr ''''))"
| "timestamp_of v = ''''"

text \<open>
  The positions of the backing array in the order in which \<open>get_logs\<close> emits them:
  the sort of \<open>get_logs\<close> run on the indices, each carrying the key of its event.
\<close>

definition events_order :: "json list \<Rightarrow> nat list result" where
  "events_order es = py_sorted (\<lambda>i. timestamp_key (es ! i)) True [0..<length es]"

text \<open>The filter of the scan: the lowered suffix of the entry's name is an allowed one.\<close>

definition qualifies :: "dir_entry \<Rightarrow> bool" where
  "qualifies file \<longleftrightarrow> lower (suffix (name file)) \<in> set allowed_suffixes"

text \<open>Whether a decoded value is a JSON object, the only kind with a \<open>get\<close> attribute.\<close>

fun is_object :: "json \<Rightarrow> bool" where
  "is_object (JObj d) = True"
| "is_object v = False"

section \<open>Properties\<close>

subsection \<open>Lemmas about the sort\<close>

lemma is_str_conv: "is_str k \<longleftrightarrow> k = JStr (str_of k)"
  by (cases k) simp_all

lemma py_lt_str: "is_str a \<Longrightarrow> is_str b \<Longrightarrow> py_lt a b = Inr (str_of a < str_of b)"
  by (cases a; cases b) simp_all

lemma insort_lt_str:
  "is_str (fst x) \<Longrightarrow> \<forall>p\<in>set ys. is_str (fst p) \<Longrightarrow>
   insort_lt x ys = Inr (insort_key (str_of \<circ> fst) x ys)"
  by (induction ys) (auto simp: py_lt_str not_less)

lemma sort_lt_str:
  "\<forall>p\<in>set ps. is_str (fst p) \<Longrightarrow> sort_lt ps = Inr (sort_key (str_of \<circ> fst) ps)"
  by (induction ps) (simp_all add: insort_lt_str)

lemma insort_key_map:
  "insort_key k (g x) (map g ys) = map g (insort_key (\<lambda>y. k (g y)) x ys)"
  by (induction ys) simp_all

lemma sort_key_map: "sort_key k (map g ys) = map g (sort_key (\<lambda>y. k (g y)) ys)"
  by (induction ys) (simp_all add: insort_key_map)

lemma sort_keys_total:
  "\<forall>x\<in>set xs. key x = Inr (f x) \<Longrightarrow> sort_keys key xs = Inr (map f xs)"
  by (induction xs) simp_all

lemma zip_map_self: "zip (map f xs) xs = map (\<lambda>x. (f x, x)) xs"
  by (induction xs) simp_all

lemma py_sorted_str:
  assumes "\<forall>x\<in>set xs. key x = Inr (JStr (f x))"
  shows "py_sorted key True xs = Inr (rev (sort_key f (rev xs)))"
proof -
  let ?g = "\<lambda>x. (JStr (f x), x)"
  have keys: "sort_keys key xs = Inr (map (\<lambda>x. JStr (f x)) xs)"
    using assms by (rule sort_keys_total)
  have dec: "rev (zip (map (\<lambda>x. JStr (f x)) xs) xs) = map ?g (rev xs)"
    by (simp add: zip_map_self rev_map)
  have "sort_lt (map ?g (rev xs)) = Inr (sort_key (str_of \<circ> fst) (map ?g (rev xs)))"
    by (rule sort_lt_str) simp
  also have "sort_key (str_of \<circ> fst) (map ?g (rev xs)) = map ?g (sort_key f (rev xs))"
    by (simp add: sort_key_map comp_def)
  finally have srt: "sort_lt (map ?g (rev xs)) = Inr (map ?g (sort_key f (rev xs)))" .
  show ?thesis
    by (simp add: py_sorted_def keys dec srt rev_map comp_def)
qed

lemma desc_sorted:
  fixes f :: "'a \<Rightarrow> string"
  shows "sorted_wrt (\<lambda>a b. f b \<le> f a) (rev (sort_key f ys))"
proof -
  have "sorted (map f (sort_key f ys))" by simp
  then have "sorted_wrt (\<lambda>a b. f a \<le> f b) (sort_key f ys)"
    by (simp add: sorted_map)
  then show ?thesis by (simp add: sorted_wrt_rev)
qed

lemma desc_stable:
  fixes f :: "'a \<Rightarrow> string"
  shows "filter (\<lambda>x. f x = t) (rev (sort_key f (rev xs))) = filter (\<lambda>x. f x = t) xs"
  by (simp add: rev_filter [symmetric] sort_key_stable)

lemma desc_mset:
  fixes f :: "'a \<Rightarrow> string"
  shows "mset (rev (sort_key f (rev xs))) = mset xs"
  by simp

lemma timestamp_key_log_event:
  assumes "is_log_event e"
  shows "timestamp_key e = Inr (JStr (timestamp_of e))"
proof (cases e)
  case (JObj d)
  with assms have "is_str (dict_get d ''timestamp'' (JStr ''''))" by simp
  then have "dict_get d ''timestamp'' (JStr '''') = JStr (str_of (dict_get d ''timestamp'' (JStr '''')))"
    by (simp only: is_str_conv [symmetric])
  then show ?thesis using JObj by simp
qed (use assms in simp_all)

lemma py_lt_same_class: "py_lt a b = Inr r \<Longrightarrow> is_str a = is_str b"
  by (cases a; cases b) (simp_all split: option.splits)

lemma sort_keys_map: "sort_keys key (map g xs) = sort_keys (\<lambda>x. key (g x)) xs"
  by (induction xs) (simp_all split: sum.splits)

lemma insort_lt_map:
  "insort_lt (apsnd g x) (map (apsnd g) ys) = map_sum id (map (apsnd g)) (insort_lt x ys)"
  by (induction ys) (auto split: sum.splits)

lemma sort_lt_map: "sort_lt (map (apsnd g) ps) = map_sum id (map (apsnd g)) (sort_lt ps)"
  by (induction ps) (auto split: sum.splits simp: insort_lt_map id_def)

lemma zip_map2_apsnd: "zip ks (map g xs) = map (apsnd g) (zip ks xs)"
  by (simp add: zip_map2 apsnd_def map_prod_def case_prod_unfold)

lemma py_sorted_map:
  "py_sorted key r (map g xs) = map_sum id (map g) (py_sorted (\<lambda>x. key (g x)) r xs)"
proof (cases "sort_keys (\<lambda>x. key (g x)) xs")
  case (Inl e)
  then show ?thesis by (simp add: py_sorted_def sort_keys_map)
next
  case (Inr ks)
  show ?thesis
    by (cases r; cases "sort_lt (zip ks xs)"; cases "sort_lt (rev (zip ks xs))")
       (simp_all add: py_sorted_def sort_keys_map Inr zip_map2_apsnd sort_lt_map
          rev_map comp_def)
qed

lemma lt_list_error_aux:
  assumes items: "\<And>x y e. x \<in> set xs \<Longrightarrow> py_lt x y = Inl e \<Longrightarrow> e = TypeError"
    and raised: "lt_list xs ys = Inl e"
  shows "e = TypeError"
  using assms
proof (induction xs arbitrary: ys)
  case Nil
  then show ?case by (cases ys) simp_all
next
  case step: (Cons x xs)
  show ?case
  proof (cases ys)
    case Nil
    with step.prems(2) show ?thesis by simp
  next
    case (Cons y ys')
    show ?thesis
    proof (cases "py_same x y")
      case True
      with step.prems(2) Cons have "lt_list xs ys' = Inl e" by simp
      moreover have "\<And>x' y' e'. x' \<in> set xs \<Longrightarrow> py_lt x' y' = Inl e' \<Longrightarrow> e' = TypeError"
        using step.prems(1) by (meson list.set_intros(2))
      ultimately show ?thesis using step.IH by blast
    next
      case False
      with step.prems(2) Cons have "py_lt x y = Inl e" by simp
      then show ?thesis using step.prems(1) by (meson list.set_intros(1))
    qed
  qed
qed

lemma py_lt_error: "py_lt a b = Inl e \<Longrightarrow> e = TypeError"
proof (induction a arbitrary: b e)
  case (JArr xs)
  show ?case
  proof (cases b)
    case (JArr ys)
    with JArr.prems have "lt_list xs ys = Inl e" by simp
    then show ?thesis using lt_list_error_aux JArr.IH by blast
  qed (use JArr.prems in \<open>simp_all split: option.splits\<close>)
qed (case_tac b; simp split: option.splits)+

lemma insort_lt_error: "insort_lt x ys = Inl e \<Longrightarrow> e = TypeError"
proof (induction ys)
  case Nil
  then show ?case by simp
next
  case (Cons y ys)
  show ?case
  proof (cases "py_lt (fst y) (fst x)")
    case (Inl e')
    with Cons.prems have "e' = e" by simp
    with Inl show ?thesis using py_lt_error by blast
  next
    case (Inr smaller)
    show ?thesis
    proof (cases smaller)
      case True
      with Inr Cons.prems have "insort_lt x ys = Inl e"
        by (cases "insort_lt x ys") simp_all
      then show ?thesis by (rule Cons.IH)
    next
      case False
      with Inr Cons.prems show ?thesis by simp
    qed
  qed
qed

lemma insort_lt_Cons_Inr:
  assumes "insort_lt x (y # ys) = Inr zs"
  shows "(py_lt (fst y) (fst x) = Inr False \<and> zs = x # y # ys)
       \<or> (py_lt (fst y) (fst x) = Inr True \<and> (\<exists>zs'. insort_lt x ys = Inr zs' \<and> zs = y # zs'))"
proof (cases "py_lt (fst y) (fst x)")
  case (Inl e)
  with assms show ?thesis by simp
next
  case (Inr smaller)
  show ?thesis
  proof (cases smaller)
    case True
    with Inr assms show ?thesis by (cases "insort_lt x ys") simp_all
  next
    case False
    with Inr assms show ?thesis by auto
  qed
qed

lemma sort_lt_Cons_Inr:
  assumes "sort_lt (x # xs) = Inr out"
  shows "\<exists>ys. sort_lt xs = Inr ys \<and> insort_lt x ys = Inr out"
  using assms by (cases "sort_lt xs") simp_all

lemma sort_lt_error: "sort_lt ps = Inl e \<Longrightarrow> e = TypeError"
proof (induction ps)
  case Nil
  then show ?case by simp
next
  case (Cons x ps)
  show ?case
  proof (cases "sort_lt ps")
    case (Inl e')
    with Cons.prems have "e' = e" by simp
    with Inl Cons.IH show ?thesis by simp
  next
    case (Inr ys)
    with Cons.prems have "insort_lt x ys = Inl e" by simp
    then show ?thesis by (rule insort_lt_error)
  qed
qed

lemma insort_lt_set: "insort_lt x ys = Inr zs \<Longrightarrow> set zs = insert x (set ys)"
proof (induction ys arbitrary: zs)
  case Nil
  then show ?case by auto
next
  case (Cons y ys)
  from insort_lt_Cons_Inr [OF Cons.prems] show ?case
  proof (elim disjE conjE exE)
    assume "zs = x # y # ys"
    then show ?thesis by auto
  next
    fix zs' assume "insort_lt x ys = Inr zs'" "zs = y # zs'"
    then show ?thesis using Cons.IH by auto
  qed
qed

lemma sort_lt_set: "sort_lt ps = Inr out \<Longrightarrow> set out = set ps"
proof (induction ps arbitrary: out)
  case Nil
  then show ?case by simp
next
  case (Cons x ps)
  from sort_lt_Cons_Inr [OF Cons.prems] obtain ys
    where ys: "sort_lt ps = Inr ys" and ins: "insort_lt x ys = Inr out" by blast
  from ys have "set ys = set ps" by (rule Cons.IH)
  moreover from ins have "set out = insert x (set ys)" by (rule insort_lt_set)
  ultimately show ?case by simp
qed

lemma insort_lt_same_class:
  assumes "insort_lt x ys = Inr zs" "ys \<noteq> []"
  shows "is_str (fst x) = is_str (fst (hd ys))"
proof -
  from assms(2) obtain y ys' where ys: "ys = y # ys'" by (cases ys) auto
  from insort_lt_Cons_Inr [OF assms(1) [unfolded ys]]
  obtain r where "py_lt (fst y) (fst x) = Inr r" by blast
  then have "is_str (fst y) = is_str (fst x)" by (rule py_lt_same_class)
  then show ?thesis by (simp add: ys)
qed

lemma sort_lt_same_class:
  "sort_lt ps = Inr out \<Longrightarrow> p \<in> set ps \<Longrightarrow> q \<in> set ps \<Longrightarrow> is_str (fst p) = is_str (fst q)"
proof (induction ps arbitrary: out p q)
  case Nil
  then show ?case by simp
next
  case (Cons x ps)
  from sort_lt_Cons_Inr [OF Cons.prems(1)] obtain ys
    where ys: "sort_lt ps = Inr ys" and ins: "insort_lt x ys = Inr out" by blast
  have same: "is_str (fst a) = is_str (fst b)" if "a \<in> set ps" "b \<in> set ps" for a b
    using Cons.IH [OF ys that] .
  have sets: "set ys = set ps" using ys by (rule sort_lt_set)
  have head: "is_str (fst x) = is_str (fst a)" if a: "a \<in> set ps" for a
  proof -
    from a sets have ne: "ys \<noteq> []" by (cases ys) simp_all
    then have "hd ys \<in> set ys" by (rule hd_in_set)
    then have "hd ys \<in> set ps" by (simp only: sets)
    then have "is_str (fst (hd ys)) = is_str (fst a)" using a by (rule same)
    with insort_lt_same_class [OF ins ne] show ?thesis by (rule trans)
  qed
  from Cons.prems(2) have p: "p = x \<or> p \<in> set ps" by simp
  from Cons.prems(3) have q: "q = x \<or> q \<in> set ps" by simp
  from p q show ?case
  proof (elim disjE)
    assume "p = x" "q = x"
    then show ?thesis by simp
  next
    assume "p = x" "q \<in> set ps"
    then show ?thesis using head [of q] by simp
  next
    assume "p \<in> set ps" "q = x"
    then show ?thesis using head [of p] by simp
  next
    assume "p \<in> set ps" "q \<in> set ps"
    then show ?thesis by (rule same)
  qed
qed

lemma sort_keys_Cons_Inr:
  assumes "sort_keys key (x # xs) = Inr ks"
  shows "\<exists>k ks'. key x = Inr k \<and> sort_keys key xs = Inr ks' \<and> ks = k # ks'"
  using assms by (cases "key x"; cases "sort_keys key xs") simp_all

lemma sort_keys_error:
  "sort_keys timestamp_key es = Inl e \<Longrightarrow> e = AttributeError"
proof (induction es)
  case Nil
  then show ?case by simp
next
  case (Cons x es)
  show ?case
  proof (cases "timestamp_key x")
    case (Inl e')
    then have "e' = AttributeError" by (cases x) simp_all
    with Inl Cons.prems show ?thesis by simp
  next
    case (Inr k)
    with Cons.prems have "sort_keys timestamp_key es = Inl e"
      by (cases "sort_keys timestamp_key es") simp_all
    then show ?thesis by (rule Cons.IH)
  qed
qed

lemma sort_keys_length: "sort_keys key xs = Inr ks \<Longrightarrow> length ks = length xs"
proof (induction xs arbitrary: ks)
  case Nil
  then show ?case by simp
next
  case (Cons x xs)
  from sort_keys_Cons_Inr [OF Cons.prems] obtain k ks'
    where "sort_keys key xs = Inr ks'" "ks = k # ks'" by blast
  then show ?case using Cons.IH by simp
qed

lemma sort_keys_zip:
  "sort_keys key xs = Inr ks \<Longrightarrow> x \<in> set xs \<Longrightarrow> key x = Inr k \<Longrightarrow> (k, x) \<in> set (zip ks xs)"
proof (induction xs arbitrary: ks)
  case Nil
  then show ?case by simp
next
  case (Cons y xs)
  from sort_keys_Cons_Inr [OF Cons.prems(1)] obtain k' ks'
    where k': "key y = Inr k'" and ks': "sort_keys key xs = Inr ks'" and ks: "ks = k' # ks'"
    by blast
  show ?case
  proof (cases "x = y")
    case True
    with k' Cons.prems(3) ks show ?thesis by simp
  next
    case False
    with Cons.prems(2) have "x \<in> set xs" by simp
    then have "(k, x) \<in> set (zip ks' xs)" using Cons.IH [OF ks'] Cons.prems(3) by simp
    then show ?thesis by (simp add: ks)
  qed
qed

lemma sort_keys_defined:
  "(\<And>x. x \<in> set xs \<Longrightarrow> \<exists>k. key x = Inr k) \<Longrightarrow> \<exists>ks. sort_keys key xs = Inr ks"
proof (induction xs)
  case Nil
  then show ?case by simp
next
  case (Cons x xs)
  then obtain k where "key x = Inr k" by (meson list.set_intros(1))
  moreover obtain ks where "sort_keys key xs = Inr ks"
    using Cons by (meson list.set_intros(2))
  ultimately show ?case by simp
qed

lemma py_sorted_mixed:
  assumes keys: "sort_keys key xs = Inr ks"
    and a: "a \<in> set xs" "key a = Inr ka" "is_str ka"
    and b: "b \<in> set xs" "key b = Inr kb" "\<not> is_str kb"
  shows "py_sorted key True xs = Inl TypeError"
proof -
  let ?ps = "rev (zip ks xs)"
  have pa: "(ka, a) \<in> set ?ps" and pb: "(kb, b) \<in> set ?ps"
    using sort_keys_zip [OF keys] a b by auto
  have "sort_lt ?ps = Inl TypeError"
  proof (cases "sort_lt ?ps")
    case (Inl e)
    then show ?thesis using sort_lt_error by blast
  next
    case (Inr out)
    from sort_lt_same_class [OF Inr pa pb] a(3) b(3) show ?thesis by simp
  qed
  then show ?thesis by (simp add: py_sorted_def keys)
qed

lemma py_sorted_error:
  assumes "py_sorted timestamp_key r es = Inl e"
  shows "e = AttributeError \<or> e = TypeError"
proof (cases "sort_keys timestamp_key es")
  case (Inl e')
  with assms have "e' = e" by (simp add: py_sorted_def)
  with Inl show ?thesis using sort_keys_error by blast
next
  case (Inr ks)
  let ?ps = "if r then rev (zip ks es) else zip ks es"
  from assms Inr have "sort_lt ?ps = Inl e"
    by (cases "sort_lt ?ps") (simp_all add: py_sorted_def)
  then show ?thesis using sort_lt_error by blast
qed

lemma sort_keys_cong:
  assumes "\<And>x. x \<in> set xs \<Longrightarrow> key x = key' x"
  shows "sort_keys key xs = sort_keys key' xs"
  using assms
proof (induction xs)
  case Nil
  then show ?case by simp
next
  case (Cons x xs)
  have "key x = key' x" by (rule Cons.prems) simp
  moreover have "sort_keys key xs = sort_keys key' xs"
    by (rule Cons.IH) (simp add: Cons.prems)
  ultimately show ?case by (simp split: sum.splits)
qed

lemma py_sorted_cong:
  "(\<And>x. x \<in> set xs \<Longrightarrow> key x = key' x) \<Longrightarrow> py_sorted key r xs = py_sorted key' r xs"
  by (simp add: py_sorted_def sort_keys_cong [of xs key key'])

lemma py_sorted_by_positions:
  "py_sorted key r xs = map_sum id (map ((!) xs)) (py_sorted (\<lambda>i. key (xs ! i)) r [0..<length xs])"
  using py_sorted_map [of key r "(!) xs" "[0..<length xs]"] by (simp add: map_nth)

lemma desc_empty_last:
  fixes f :: "'a \<Rightarrow> string"
  shows "\<forall>i j. i < j \<longrightarrow> j < length (rev (sort_key f ys)) \<longrightarrow> f (rev (sort_key f ys) ! i) = ''''
           \<longrightarrow> f (rev (sort_key f ys) ! j) = ''''"
proof (intro allI impI)
  fix i j
  assume "i < j" "j < length (rev (sort_key f ys))" "f (rev (sort_key f ys) ! i) = ''''"
  with sorted_wrt_nth_less [OF desc_sorted [of f ys], of i j]
  have "f (rev (sort_key f ys) ! j) \<le> ''''" by simp
  then show "f (rev (sort_key f ys) ! j) = ''''" by simp
qed

subsection \<open>Lemmas about \<open>get_logs\<close>\<close>

lemma get_logs_array:
  "get_logs (File (Inr (JArr es))) =
     map_sum id (\<lambda>out. \<lparr>events = out, total = length out\<rparr>) (py_sorted timestamp_key True es)"
  by (cases "py_sorted timestamp_key True es") (simp_all add: get_logs_def load_logs_def)

lemma get_logs_by_positions:
  "get_logs (File (Inr (JArr es))) =
     map_sum id (\<lambda>p. \<lparr>events = map ((!) es) p, total = length p\<rparr>) (events_order es)"
proof -
  have "py_sorted timestamp_key True es = map_sum id (map ((!) es)) (events_order es)"
    unfolding events_order_def by (rule py_sorted_by_positions)
  then show ?thesis
    by (cases "events_order es") (simp_all add: get_logs_array)
qed

lemma get_logs_array_no_http_exception:
  "get_logs (File (Inr (JArr es))) \<noteq> Inl (HTTPException code detail)"
proof (cases "py_sorted timestamp_key True es")
  case (Inl e)
  then have "e = AttributeError \<or> e = TypeError" by (rule py_sorted_error)
  with Inl show ?thesis by (auto simp: get_logs_array)
next
  case (Inr out)
  then show ?thesis by (simp add: get_logs_array)
qed

subsection \<open>Lemmas about the scan of the image directory\<close>

lemma fromtimestamp_error: "fromtimestamp us = Inl e \<Longrightarrow> e = TimestampOutOfRange"
  by (simp add: fromtimestamp_def Let_def split: prod.splits if_splits)

lemma image_item_Inr:
  "image_item f = Inr item \<longleftrightarrow>
     (\<exists>t ts. stat f = Some t \<and> fromtimestamp t = Inr ts
        \<and> item = \<lparr>filename = name f, url = ''/static/images/'' @ name f,
                   timestamp = isoformat ts\<rparr>)"
proof (cases "stat f")
  case None
  then show ?thesis by (simp add: image_item_def)
next
  case (Some t)
  then show ?thesis by (cases "fromtimestamp t") (auto simp: image_item_def)
qed

lemma image_item_error:
  "image_item f = Inl e \<Longrightarrow> e = OSError \<or> e = TimestampOutOfRange"
proof (cases "stat f")
  case None
  moreover assume "image_item f = Inl e"
  ultimately show ?thesis by (simp add: image_item_def)
next
  case (Some t)
  moreover assume "image_item f = Inl e"
  ultimately show ?thesis
    by (cases "fromtimestamp t") (auto simp: image_item_def dest: fromtimestamp_error)
qed

lemma scan_acc:
  "scan files acc = (case scan files [] of Inl e \<Rightarrow> Inl e | Inr its \<Rightarrow> Inr (acc @ its))"
proof (induction files arbitrary: acc)
  case Nil
  then show ?case by simp
next
  case (Cons f files)
  show ?case
  proof (cases "lower (suffix (name f)) \<in> set allowed_suffixes")
    case False
    then show ?thesis using Cons.IH [of acc] by simp
  next
    case True
    show ?thesis
    proof (cases "image_item f")
      case (Inl e)
      with True show ?thesis by simp
    next
      case (Inr item)
      have "scan files (acc @ [item])
          = (case scan files [] of Inl e \<Rightarrow> Inl e | Inr its \<Rightarrow> Inr ((acc @ [item]) @ its))"
        by (rule Cons.IH)
      moreover have "scan files [item]
          = (case scan files [] of Inl e \<Rightarrow> Inl e | Inr its \<Rightarrow> Inr ([item] @ its))"
        by (rule Cons.IH)
      ultimately show ?thesis using True Inr
        by (cases "scan files []") simp_all
    qed
  qed
qed

lemma scan_Cons:
  "scan (f # files) [] =
     (if \<not> qualifies f then scan files []
      else case image_item f of
             Inl e \<Rightarrow> Inl e
           | Inr item \<Rightarrow> (case scan files [] of Inl e \<Rightarrow> Inl e | Inr its \<Rightarrow> Inr (item # its)))"
proof (cases "image_item f")
  case (Inl e)
  then show ?thesis by (simp add: qualifies_def)
next
  case (Inr item)
  then show ?thesis using scan_acc [of files "[item]"]
    by (cases "scan files []") (simp_all add: qualifies_def)
qed

lemma scan_filter: "scan (filter qualifies files) [] = scan files []"
proof (induction files)
  case Nil
  then show ?case by simp
next
  case (Cons f files)
  show ?case
  proof (cases "qualifies f")
    case True
    then show ?thesis using Cons.IH
      by (simp add: scan_Cons del: scan.simps split: sum.splits)
  next
    case False
    then show ?thesis using Cons.IH by (simp add: scan_Cons del: scan.simps)
  qed
qed

lemma scan_Inr:
  assumes "scan files [] = Inr its"
  shows "list_all2 (\<lambda>f item. image_item f = Inr item) (filter qualifies files) its"
  using assms
proof (induction files arbitrary: its)
  case Nil
  then show ?case by simp
next
  case (Cons f files)
  show ?case
  proof (cases "qualifies f")
    case False
    with Cons.prems have "scan files [] = Inr its" by (simp add: scan_Cons del: scan.simps)
    then show ?thesis using Cons.IH False by simp
  next
    case True
    with Cons.prems obtain item rest
      where "image_item f = Inr item" "scan files [] = Inr rest" "its = item # rest"
      by (cases "image_item f"; cases "scan files []")
         (simp_all add: scan_Cons del: scan.simps)
    then show ?thesis using Cons.IH True by simp
  qed
qed

lemma scan_error:
  assumes "scan files [] = Inl e"
  shows "\<exists>f\<in>set files. qualifies f \<and> image_item f = Inl e"
  using assms
proof (induction files)
  case Nil
  then show ?case by simp
next
  case (Cons f files)
  show ?case
  proof (cases "qualifies f")
    case False
    with Cons.prems have "scan files [] = Inl e" by (simp add: scan_Cons del: scan.simps)
    then show ?thesis using Cons.IH by auto
  next
    case True
    show ?thesis
    proof (cases "image_item f")
      case (Inl e')
      with True Cons.prems have "e' = e" by (simp add: scan_Cons del: scan.simps)
      with Inl True show ?thesis by auto
    next
      case (Inr item)
      with True Cons.prems have "scan files [] = Inl e"
        by (cases "scan files []") (simp_all add: scan_Cons del: scan.simps)
      then show ?thesis using Cons.IH by auto
    qed
  qed
qed

lemma scan_defined:
  assumes "\<forall>f\<in>set files. qualifies f \<longrightarrow> (\<exists>item. image_item f = Inr item)"
  shows "\<exists>its. scan files [] = Inr its"
proof (cases "scan files []")
  case (Inl e)
  from scan_error [OF Inl] obtain f
    where "f \<in> set files" "qualifies f" "image_item f = Inl e" by blast
  with assms show ?thesis by fastforce
next
  case (Inr its)
  then show ?thesis by blast
qed

lemma scan_Inr_map:
  assumes "scan files [] = Inr its"
  shows "its = map (\<lambda>f. projr (image_item f)) (filter qualifies files)"
proof -
  have "list_all2 (\<lambda>f item. image_item f = Inr item) xs ys
        \<Longrightarrow> ys = map (\<lambda>f. projr (image_item f)) xs" for xs ys
    by (induction xs ys rule: list_all2_induct) simp_all
  with scan_Inr [OF assms] show ?thesis by blast
qed

lemma scan_Inr_ok:
  assumes "scan files [] = Inr its" "f \<in> set files" "qualifies f"
  shows "image_item f = Inr (projr (image_item f))"
proof -
  have "list_all2 (\<lambda>f item. image_item f = Inr item) xs ys
        \<Longrightarrow> \<forall>f\<in>set xs. image_item f = Inr (projr (image_item f))" for xs ys
    by (induction xs ys rule: list_all2_induct) simp_all
  with scan_Inr [OF assms(1)] assms(2,3) show ?thesis by simp
qed

lemma load_images_scan:
  assumes "scan files [] = Inr its"
  shows "load_images (Some (Entries files)) = Inr (rev (sort_key timestamp (rev its)))"
proof -
  have "py_sorted (\<lambda>item. Inr (JStr (timestamp item))) True its
        = Inr (rev (sort_key timestamp (rev its)))"
    by (rule py_sorted_str) simp
  then show ?thesis by (simp add: load_images_def assms)
qed

lemma load_images_error:
  assumes "load_images (Some (Entries files)) = Inl e"
  shows "scan files [] = Inl e"
proof (cases "scan files []")
  case (Inl e')
  with assms show ?thesis by (simp add: load_images_def)
next
  case (Inr its)
  from load_images_scan [OF Inr] assms show ?thesis by simp
qed

lemma load_images_Inr:
  assumes "load_images (Some (Entries files)) = Inr items"
  shows "\<exists>its. scan files [] = Inr its \<and> items = rev (sort_key timestamp (rev its))"
proof (cases "scan files []")
  case (Inl e)
  with assms show ?thesis by (simp add: load_images_def)
next
  case (Inr its)
  from load_images_scan [OF Inr] assms show ?thesis using Inr by simp
qed

lemma get_images_load:
  "get_images dir = map_sum id (\<lambda>imgs. \<lparr>images = imgs, total_images = length imgs\<rparr>) (load_images dir)"
  by (cases "load_images dir") (simp_all add: get_images_def)

lemma scan_perm:
  assumes "mset files' = mset files" "scan files [] = Inr its"
  shows "\<exists>its'. scan files' [] = Inr its' \<and> mset its' = mset its"
proof -
  from assms(1) have sets: "set files' = set files" by (rule mset_eq_setD)
  have "\<forall>f\<in>set files'. qualifies f \<longrightarrow> (\<exists>item. image_item f = Inr item)"
  proof (intro ballI impI)
    fix f assume "f \<in> set files'" "qualifies f"
    with sets scan_Inr_ok [OF assms(2), of f]
    have "image_item f = Inr (projr (image_item f))" by simp
    then show "\<exists>item. image_item f = Inr item" ..
  qed
  then obtain its' where its': "scan files' [] = Inr its'"
    using scan_defined by blast
  have "mset (filter qualifies files') = mset (filter qualifies files)"
    by (simp add: assms(1))
  then have "mset (map (\<lambda>f. projr (image_item f)) (filter qualifies files'))
      = mset (map (\<lambda>f. projr (image_item f)) (filter qualifies files))"
    by (simp only: mset_map)
  then have "mset its' = mset its"
    by (simp only: scan_Inr_map [OF its'] scan_Inr_map [OF assms(2)])
  with its' show ?thesis by blast
qed

lemma scan_perm_error:
  assumes "mset files' = mset files" "scan files [] = Inl e"
  shows "\<exists>e'. scan files' [] = Inl e'"
proof (cases "scan files' []")
  case (Inl e')
  then show ?thesis by blast
next
  case (Inr its')
  from scan_perm [OF assms(1) [symmetric] Inr] assms(2) show ?thesis by auto
qed

lemma map_sort_key:
  fixes f :: "'a \<Rightarrow> string"
  shows "map f (sort_key f xs) = sort (map f xs)"
  by (rule properties_for_sort [symmetric]) simp_all

lemma desc_keys_mset:
  fixes f :: "'a \<Rightarrow> string"
  assumes "mset xs = mset ys"
  shows "map f (rev (sort_key f (rev xs))) = map f (rev (sort_key f (rev ys)))"
proof -
  have "mset (sort (map f (rev ys))) = mset (map f (rev xs))"
    using assms by simp
  then have "sort (map f (rev xs)) = sort (map f (rev ys))"
    by (rule properties_for_sort) simp
  then show ?thesis by (simp only: rev_map [symmetric] map_sort_key)
qed





lemma list_all2_right:
  "list_all2 R xs ys \<Longrightarrow> y \<in> set ys \<Longrightarrow> \<exists>x\<in>set xs. R x y"
  by (induction xs ys rule: list_all2_induct) auto

lemma load_images_set:
  assumes "load_images (Some (Entries files)) = Inr items"
  shows "\<exists>its. scan files [] = Inr its \<and> set items = set its \<and> mset items = mset its"
proof -
  from load_images_Inr [OF assms] obtain its
    where "scan files [] = Inr its" "items = rev (sort_key timestamp (rev its))" by blast
  then show ?thesis by auto
qed


lemma load_images_origin:
  assumes "load_images (Some (Entries files)) = Inr items" "item \<in> set items"
  shows "\<exists>f\<in>set files. \<exists>t ts. qualifies f \<and> stat f = Some t \<and> fromtimestamp t = Inr ts
      \<and> item = \<lparr>filename = name f, url = ''/static/images/'' @ name f,
                 timestamp = isoformat ts\<rparr>"
proof -
  from load_images_set [OF assms(1)] obtain its
    where its: "scan files [] = Inr its" and sets: "set items = set its" by blast
  from assms(2) sets have "item \<in> set its" by simp
  from list_all2_right [OF scan_Inr [OF its] this] obtain f
    where "f \<in> set (filter qualifies files)" "image_item f = Inr item" by blast
  then show ?thesis by (auto simp: image_item_Inr)
qed

lemma image_item_kind: "image_item (f\<lparr>kind := k\<rparr>) = image_item f"
  by (simp add: image_item_def split: option.splits sum.splits)

lemma scan_kind:
  "scan (map (\<lambda>f. f\<lparr>kind := k f\<rparr>) files) acc = scan files acc"
  by (induction files arbitrary: acc) (simp_all add: image_item_kind split: sum.splits)

lemma load_images_kind:
  "load_images (Some (Entries (map (\<lambda>f. f\<lparr>kind := k f\<rparr>) files)))
     = load_images (Some (Entries files))"
  by (simp add: load_images_def scan_kind)

lemma load_images_filter:
  "load_images (Some (Entries files)) = load_images (Some (Entries (filter qualifies files)))"
  by (simp add: load_images_def scan_filter)

lemma load_images_defined:
  assumes "\<forall>f\<in>set files. qualifies f \<longrightarrow> (\<exists>t ts. stat f = Some t \<and> fromtimestamp t = Inr ts)"
  shows "\<exists>items. load_images (Some (Entries files)) = Inr items"
proof -
  have "\<forall>f\<in>set files. qualifies f \<longrightarrow> (\<exists>item. image_item f = Inr item)"
    using assms unfolding image_item_Inr by blast
  then obtain its where "scan files [] = Inr its"
    using scan_defined by blast
  then show ?thesis using load_images_scan by blast
qed

lemma note_txt_excluded: "lower (suffix ''note.txt'') \<notin> set allowed_suffixes"
  by code_simp

lemma load_images_filenames:
  assumes "load_images (Some (Entries files)) = Inr items"
  shows "mset (map filename items) = mset (map name (filter qualifies files))"
proof -
  from load_images_set [OF assms] obtain its
    where its: "scan files [] = Inr its" and perm: "mset items = mset its" by blast
  have "filename (projr (image_item f)) = name f" if "f \<in> set (filter qualifies files)" for f
  proof -
    from that have "image_item f = Inr (projr (image_item f))"
      using scan_Inr_ok [OF its] by simp
    then show ?thesis unfolding image_item_Inr by (metis image_record.select_convs(1))
  qed
  then have "map filename (map (\<lambda>f. projr (image_item f)) (filter qualifies files))
      = map name (filter qualifies files)"
    unfolding map_map by (intro map_cong) simp_all
  then have "map filename its = map name (filter qualifies files)"
    by (simp only: scan_Inr_map [OF its])
  moreover have "mset (map filename items) = mset (map filename its)"
    using perm by (simp only: mset_map)
  ultimately show ?thesis by simp
qed

subsection \<open>Absent state, corrupt documents, documents that are no array\<close>

text \<open>
  C2. Absence of backing state is no error. Without the log document \<open>_load_logs\<close>
  returns the empty list, without the image directory \<open>_load_images\<close> does, and both
  endpoints answer with an empty list, total 0 and status 200.
\<close>

theorem absent_state_gives_empty_result:
  "load_logs NoFile = Inr []
   \<and> load_images None = Inr []
   \<and> get_logs NoFile = Inr \<lparr>events = [], total = 0\<rparr>
   \<and> get_images None = Inr \<lparr>images = [], total_images = 0\<rparr>
   \<and> status_code (get_logs NoFile) = 200
   \<and> status_code (get_images None) = 200"
  by (simp add: load_logs_def load_images_def get_logs_def get_images_def
      py_sorted_def status_code_def)

text \<open>
  C3, amended. When the decoder rejects the existing document with a
  \<open>JSONDecodeError\<close> of diagnostic \<open>exc\<close>, \<open>_load_logs\<close> raises an \<open>HTTPException\<close> with
  status 500 whose detail ends with that diagnostic, and \<open>get_logs\<close> raises the same
  exception. Whatever exception \<open>e\<close> the reading and decoding raise, \<open>_load_logs\<close>
  returns no list at all, \<open>get_logs\<close> raises what \<open>_load_logs\<close> raises, and the answer
  has status 500. On a document that decodes to an array \<open>_load_logs\<close> returns that
  array, and \<open>get_logs\<close> never raises an \<open>HTTPException\<close>.
\<close>

theorem corrupt_document_raises_500:
  "load_logs (File (Inl (JSONDecodeError exc)))
     = Inl (HTTPException 500 (''Corrupt logs.json: '' @ exc))
   \<and> get_logs (File (Inl (JSONDecodeError exc)))
     = Inl (HTTPException 500 (''Corrupt logs.json: '' @ exc))
   \<and> (\<forall>xs. load_logs (File (Inl e)) \<noteq> Inr xs)
   \<and> (\<exists>x. load_logs (File (Inl e)) = Inl x \<and> get_logs (File (Inl e)) = Inl x)
   \<and> status_code (get_logs (File (Inl e))) = 500
   \<and> load_logs (File (Inr (JArr es))) = Inr es
   \<and> (\<forall>code detail. get_logs (File (Inr (JArr es))) \<noteq> Inl (HTTPException code detail))"
proof -
  have "load_logs (File (Inr (JArr es))) = Inr es"
    by (simp add: load_logs_def)
  moreover have "\<forall>code detail. get_logs (File (Inr (JArr es))) \<noteq> Inl (HTTPException code detail)"
    by (simp add: get_logs_array_no_http_exception)
  moreover have "load_logs (File (Inl (JSONDecodeError exc)))
      = Inl (HTTPException 500 (''Corrupt logs.json: '' @ exc))"
    by (simp add: load_logs_def)
  moreover have "get_logs (File (Inl (JSONDecodeError exc)))
      = Inl (HTTPException 500 (''Corrupt logs.json: '' @ exc))"
    by (simp add: load_logs_def get_logs_def)
  moreover have "\<forall>xs. load_logs (File (Inl e)) \<noteq> Inr xs"
    by (cases e) (simp_all add: load_logs_def)
  moreover have "\<exists>x. load_logs (File (Inl e)) = Inl x \<and> get_logs (File (Inl e)) = Inl x"
    by (cases e) (simp_all add: load_logs_def get_logs_def)
  moreover have "status_code (get_logs (File (Inl e))) = 500"
    by (cases e) (simp_all add: load_logs_def get_logs_def status_code_def)
  ultimately show ?thesis by blast
qed

text \<open>
  C3 as stated, with a diagnostic for every document that fails to parse, fails: a
  document whose bytes are no UTF-8 (the three bytes 5B FF 5D, say) makes \<open>read_text\<close>
  raise \<open>UnicodeDecodeError\<close>, which the \<open>except\<close> clause does not catch; it leaves
  \<open>_load_logs\<close> and \<open>get_logs\<close> as it is, without the detail of a corrupt document.
\<close>

theorem undecodable_document_counterexample:
  "load_logs (File (Inl UnicodeDecodeError)) = Inl (Propagated UnicodeDecodeError)
   \<and> get_logs (File (Inl UnicodeDecodeError)) = Inl (Propagated UnicodeDecodeError)"
  by (simp add: load_logs_def get_logs_def)

text \<open>
  C4. When the existing document decodes to a value that is no array, \<open>_load_logs\<close>
  raises an \<open>HTTPException\<close> with status 500 and the detail "logs.json should contain a
  JSON array", \<open>get_logs\<close> raises the same, and that detail differs from every detail
  raised for a corrupt document.
\<close>

theorem non_array_document_raises_500:
  assumes "\<forall>xs. raw \<noteq> JArr xs"
  shows "load_logs (File (Inr raw))
           = Inl (HTTPException 500 ''logs.json should contain a JSON array'')
         \<and> get_logs (File (Inr raw))
           = Inl (HTTPException 500 ''logs.json should contain a JSON array'')
         \<and> status_code (get_logs (File (Inr raw))) = 500
         \<and> ''logs.json should contain a JSON array'' \<noteq> ''Corrupt logs.json: '' @ exc"
  using assms
  by (cases raw) (simp_all add: load_logs_def get_logs_def status_code_def)

theorem non_array_document_raises_500_witness:
  "(\<forall>xs. JObj [(''timestamp'', JStr ''2024-01-01T00:00:00Z'')] \<noteq> JArr xs)
   \<and> load_logs (File (Inr (JObj [(''timestamp'', JStr ''2024-01-01T00:00:00Z'')])))
       = Inl (HTTPException 500 ''logs.json should contain a JSON array'')
   \<and> get_logs (File (Inr (JObj [(''timestamp'', JStr ''2024-01-01T00:00:00Z'')])))
       = Inl (HTTPException 500 ''logs.json should contain a JSON array'')
   \<and> status_code (get_logs (File (Inr (JObj [(''timestamp'', JStr ''2024-01-01T00:00:00Z'')])))) = 500
   \<and> ''logs.json should contain a JSON array''
       \<noteq> ''Corrupt logs.json: '' @ ''Expecting value: line 1 column 1 (char 0)''"
proof -
  have h: "\<forall>xs. JObj [(''timestamp'', JStr ''2024-01-01T00:00:00Z'')] \<noteq> JArr xs"
    by simp
  show ?thesis
    using h non_array_document_raises_500 [OF h, of "''Expecting value: line 1 column 1 (char 0)''"]
    by (rule conjI)
qed

subsection \<open>The order of the events returned by \<open>get_logs\<close>\<close>

text \<open>
  C1, amended. For a document that decodes to an array of log events (objects whose
  timestamp, when present, is a string) \<open>get_logs\<close> returns all the events, sorted by
  timestamp descending under the order of strings, an event without timestamp counting
  as one with the empty string, so that nothing with a larger timestamp follows it. The
  sort is stable: the events of any one timestamp keep their order from the array.
\<close>

theorem get_logs_sorts_log_events:
  assumes "list_all is_log_event es"
  shows "\<exists>out. get_logs (File (Inr (JArr es))) = Inr \<lparr>events = out, total = length es\<rparr>
           \<and> mset out = mset es
           \<and> sorted_wrt (\<lambda>a b. timestamp_of b \<le> timestamp_of a) out
           \<and> (\<forall>i j. i < j \<longrightarrow> j < length out \<longrightarrow> timestamp_of (out ! i) = ''''
                 \<longrightarrow> timestamp_of (out ! j) = '''')
           \<and> (\<forall>t. filter (\<lambda>e. timestamp_of e = t) out = filter (\<lambda>e. timestamp_of e = t) es)"
proof -
  let ?out = "rev (sort_key timestamp_of (rev es))"
  have "\<forall>e\<in>set es. timestamp_key e = Inr (JStr (timestamp_of e))"
    using assms by (simp add: list_all_iff timestamp_key_log_event)
  then have "py_sorted timestamp_key True es = Inr ?out"
    by (rule py_sorted_str)
  then have "get_logs (File (Inr (JArr es))) = Inr \<lparr>events = ?out, total = length es\<rparr>"
    by (simp add: get_logs_array)
  moreover have "mset ?out = mset es"
    by (rule desc_mset)
  moreover have "sorted_wrt (\<lambda>a b. timestamp_of b \<le> timestamp_of a) ?out"
    by (rule desc_sorted)
  moreover have "\<forall>i j. i < j \<longrightarrow> j < length ?out \<longrightarrow> timestamp_of (?out ! i) = ''''
      \<longrightarrow> timestamp_of (?out ! j) = ''''"
    by (rule desc_empty_last)
  moreover have "\<forall>t. filter (\<lambda>e. timestamp_of e = t) ?out = filter (\<lambda>e. timestamp_of e = t) es"
    by (simp add: desc_stable)
  ultimately show ?thesis by blast
qed

theorem get_logs_sorts_log_events_witness:
  "list_all is_log_event
     [JObj [(''timestamp'', JStr ''2024-01-01T00:00:00Z''), (''msg'', JStr ''a'')],
      JObj [(''msg'', JStr ''c'')],
      JObj [(''timestamp'', JStr ''2024-01-02T00:00:00Z''), (''msg'', JStr ''b'')]]
   \<and> (\<exists>out. get_logs (File (Inr (JArr
         [JObj [(''timestamp'', JStr ''2024-01-01T00:00:00Z''), (''msg'', JStr ''a'')],
          JObj [(''msg'', JStr ''c'')],
          JObj [(''timestamp'', JStr ''2024-01-02T00:00:00Z''), (''msg'', JStr ''b'')]])))
         = Inr \<lparr>events = out, total = length
         [JObj [(''timestamp'', JStr ''2024-01-01T00:00:00Z''), (''msg'', JStr ''a'')],
          JObj [(''msg'', JStr ''c'')],
          JObj [(''timestamp'', JStr ''2024-01-02T00:00:00Z''), (''msg'', JStr ''b'')]]\<rparr>
       \<and> mset out = mset
         [JObj [(''timestamp'', JStr ''2024-01-01T00:00:00Z''), (''msg'', JStr ''a'')],
          JObj [(''msg'', JStr ''c'')],
          JObj [(''timestamp'', JStr ''2024-01-02T00:00:00Z''), (''msg'', JStr ''b'')]]
       \<and> sorted_wrt (\<lambda>a b. timestamp_of b \<le> timestamp_of a) out
       \<and> (\<forall>i j. i < j \<longrightarrow> j < length out \<longrightarrow> timestamp_of (out ! i) = ''''
             \<longrightarrow> timestamp_of (out ! j) = '''')
       \<and> (\<forall>t. filter (\<lambda>e. timestamp_of e = t) out = filter (\<lambda>e. timestamp_of e = t)
         [JObj [(''timestamp'', JStr ''2024-01-01T00:00:00Z''), (''msg'', JStr ''a'')],
          JObj [(''msg'', JStr ''c'')],
          JObj [(''timestamp'', JStr ''2024-01-02T00:00:00Z''), (''msg'', JStr ''b'')]]))
   \<and> get_logs (File (Inr (JArr
         [JObj [(''timestamp'', JStr ''2024-01-01T00:00:00Z''), (''msg'', JStr ''a'')],
          JObj [(''msg'', JStr ''c'')],
          JObj [(''timestamp'', JStr ''2024-01-02T00:00:00Z''), (''msg'', JStr ''b'')]])))
       = Inr \<lparr>events =
         [JObj [(''timestamp'', JStr ''2024-01-02T00:00:00Z''), (''msg'', JStr ''b'')],
          JObj [(''timestamp'', JStr ''2024-01-01T00:00:00Z''), (''msg'', JStr ''a'')],
          JObj [(''msg'', JStr ''c'')]], total = 3\<rparr>"
proof -
  have h: "list_all is_log_event
     [JObj [(''timestamp'', JStr ''2024-01-01T00:00:00Z''), (''msg'', JStr ''a'')],
      JObj [(''msg'', JStr ''c'')],
      JObj [(''timestamp'', JStr ''2024-01-02T00:00:00Z''), (''msg'', JStr ''b'')]]"
    by (simp add: dict_get_def)
  have run: "get_logs (File (Inr (JArr
         [JObj [(''timestamp'', JStr ''2024-01-01T00:00:00Z''), (''msg'', JStr ''a'')],
          JObj [(''msg'', JStr ''c'')],
          JObj [(''timestamp'', JStr ''2024-01-02T00:00:00Z''), (''msg'', JStr ''b'')]])))
       = Inr \<lparr>events =
         [JObj [(''timestamp'', JStr ''2024-01-02T00:00:00Z''), (''msg'', JStr ''b'')],
          JObj [(''timestamp'', JStr ''2024-01-01T00:00:00Z''), (''msg'', JStr ''a'')],
          JObj [(''msg'', JStr ''c'')]], total = 3\<rparr>"
    by code_simp
  from h get_logs_sorts_log_events [OF h] run show ?thesis by (intro conjI)
qed

text \<open>
  C1 as stated, for every document that decodes to an array, fails: with a number as one
  timestamp and no timestamp in another event the comparison of the keys raises.
\<close>

theorem get_logs_numeric_timestamp_counterexample:
  "get_logs (File (Inr (JArr
      [JObj [(''timestamp'', JInt 1700000000)], JObj [(''msg'', JStr ''boot'')]])))
   = Inl TypeError"
  by code_simp

text \<open>
  C9. The sort of \<open>get_logs\<close> needs keys of one kind. When every element of the array
  is an object, one event has a string key (its timestamp is a string, or it has none)
  and another has a timestamp that is no string, a comparison raises \<open>TypeError\<close>:
  \<open>get_logs\<close> returns no response, and the exception is not an \<open>HTTPException\<close>.
\<close>

theorem mixed_timestamp_types_raise_type_error:
  assumes "list_all is_object es"
    and "a \<in> set es" "timestamp_key a = Inr ka" "is_str ka"
    and "b \<in> set es" "timestamp_key b = Inr kb" "\<not> is_str kb"
  shows "get_logs (File (Inr (JArr es))) = Inl TypeError
         \<and> status_code (get_logs (File (Inr (JArr es)))) = 500"
proof -
  have "\<exists>k. timestamp_key e = Inr k" if "e \<in> set es" for e
  proof -
    from that assms(1) have "is_object e" by (simp add: list_all_iff)
    then show ?thesis by (cases e) simp_all
  qed
  then obtain ks where "sort_keys timestamp_key es = Inr ks"
    using sort_keys_defined [of es timestamp_key] by blast
  then have "py_sorted timestamp_key True es = Inl TypeError"
    using assms(2-7) by (rule py_sorted_mixed)
  then show ?thesis by (simp add: get_logs_array status_code_def)
qed

theorem mixed_timestamp_types_raise_type_error_witness:
  "list_all is_object
     [JObj [(''timestamp'', JStr ''2024-01-01T00:00:00Z'')],
      JObj [(''timestamp'', JInt 1704153600)]]
   \<and> JObj [(''timestamp'', JStr ''2024-01-01T00:00:00Z'')]
       \<in> set [JObj [(''timestamp'', JStr ''2024-01-01T00:00:00Z'')],
               JObj [(''timestamp'', JInt 1704153600)]]
   \<and> timestamp_key (JObj [(''timestamp'', JStr ''2024-01-01T00:00:00Z'')])
       = Inr (JStr ''2024-01-01T00:00:00Z'')
   \<and> is_str (JStr ''2024-01-01T00:00:00Z'')
   \<and> JObj [(''timestamp'', JInt 1704153600)]
       \<in> set [JObj [(''timestamp'', JStr ''2024-01-01T00:00:00Z'')],
               JObj [(''timestamp'', JInt 1704153600)]]
   \<and> timestamp_key (JObj [(''timestamp'', JInt 1704153600)]) = Inr (JInt 1704153600)
   \<and> \<not> is_str (JInt 1704153600)
   \<and> get_logs (File (Inr (JArr
         [JObj [(''timestamp'', JStr ''2024-01-01T00:00:00Z'')],
          JObj [(''timestamp'', JInt 1704153600)]]))) = Inl TypeError
   \<and> status_code (get_logs (File (Inr (JArr
         [JObj [(''timestamp'', JStr ''2024-01-01T00:00:00Z'')],
          JObj [(''timestamp'', JInt 1704153600)]])))) = 500"
proof -
  let ?a = "JObj [(''timestamp'', JStr ''2024-01-01T00:00:00Z'')]"
  let ?b = "JObj [(''timestamp'', JInt 1704153600)]"
  have h1: "list_all is_object [?a, ?b]" by simp
  have h2: "?a \<in> set [?a, ?b]" by simp
  have h3: "timestamp_key ?a = Inr (JStr ''2024-01-01T00:00:00Z'')" by (simp add: dict_get_def)
  have h4: "is_str (JStr ''2024-01-01T00:00:00Z'')" by simp
  have h5: "?b \<in> set [?a, ?b]" by simp
  have h6: "timestamp_key ?b = Inr (JInt 1704153600)" by (simp add: dict_get_def)
  have h7: "\<not> is_str (JInt 1704153600)" by simp
  note run = mixed_timestamp_types_raise_type_error [OF h1 h2 h3 h4 h5 h6 h7]
  from h1 h2 h3 h4 h5 h6 h7 run [THEN conjunct1] run [THEN conjunct2]
  show ?thesis by (intro conjI)
qed

text \<open>
  C10. An event without a timestamp and an event whose timestamp is the empty string
  have the same sort key. Replacing event \<open>i\<close>, an object without the field, by an object
  that has the field with value the empty string (the same object with the field added,
  for one) leaves the order of \<open>get_logs\<close> as it is: both responses list the positions
  of the backing array in the one order \<open>events_order es\<close>, or both calls raise the same
  exception.
\<close>

theorem explicit_empty_timestamp_sorts_like_missing:
  assumes "i < length es"
    and "es ! i = JObj d"
    and "map_of d ''timestamp'' = None"
    and "map_of d' ''timestamp'' = Some (JStr '''')"
  shows "timestamp_key (JObj d') = timestamp_key (JObj d)
         \<and> events_order (es[i := JObj d']) = events_order es
         \<and> get_logs (File (Inr (JArr es)))
           = map_sum id (\<lambda>p. \<lparr>events = map ((!) es) p, total = length p\<rparr>) (events_order es)
         \<and> get_logs (File (Inr (JArr (es[i := JObj d']))))
           = map_sum id (\<lambda>p. \<lparr>events = map ((!) (es[i := JObj d'])) p, total = length p\<rparr>)
               (events_order es)"
proof -
  have key: "timestamp_key (JObj d') = timestamp_key (JObj d)"
    using assms(3,4) by (simp add: dict_get_def)
  have same: "timestamp_key (es[i := JObj d'] ! j) = timestamp_key (es ! j)" for j
  proof (cases "j = i")
    case True
    with assms(1,2) key show ?thesis by simp
  next
    case False
    then show ?thesis by simp
  qed
  have order: "events_order (es[i := JObj d']) = events_order es"
    unfolding events_order_def by (simp add: same)
  show ?thesis
    using key order get_logs_by_positions [of es] get_logs_by_positions [of "es[i := JObj d']"]
    by simp
qed

theorem explicit_empty_timestamp_sorts_like_missing_witness:
  "(1::nat) < length
      [JObj [(''timestamp'', JStr ''b'')], JObj [(''msg'', JStr ''x'')],
       JObj [(''timestamp'', JStr ''''), (''msg'', JStr ''y'')]]
   \<and> [JObj [(''timestamp'', JStr ''b'')], JObj [(''msg'', JStr ''x'')],
       JObj [(''timestamp'', JStr ''''), (''msg'', JStr ''y'')]] ! 1
       = JObj [(''msg'', JStr ''x'')]
   \<and> map_of [(''msg'', JStr ''x'')] ''timestamp'' = None
   \<and> map_of [(''msg'', JStr ''x''), (''timestamp'', JStr '''')] ''timestamp'' = Some (JStr '''')
   \<and> events_order
        ([JObj [(''timestamp'', JStr ''b'')], JObj [(''msg'', JStr ''x'')],
          JObj [(''timestamp'', JStr ''''), (''msg'', JStr ''y'')]]
           [1 := JObj [(''msg'', JStr ''x''), (''timestamp'', JStr '''')]])
       = events_order
          [JObj [(''timestamp'', JStr ''b'')], JObj [(''msg'', JStr ''x'')],
           JObj [(''timestamp'', JStr ''''), (''msg'', JStr ''y'')]]
   \<and> events_order
          [JObj [(''timestamp'', JStr ''b'')], JObj [(''msg'', JStr ''x'')],
           JObj [(''timestamp'', JStr ''''), (''msg'', JStr ''y'')]] = Inr [0, 1, 2]
   \<and> get_logs (File (Inr (JArr
        ([JObj [(''timestamp'', JStr ''b'')], JObj [(''msg'', JStr ''x'')],
          JObj [(''timestamp'', JStr ''''), (''msg'', JStr ''y'')]]
           [1 := JObj [(''msg'', JStr ''x''), (''timestamp'', JStr '''')]]))))
       = Inr \<lparr>events =
           [JObj [(''timestamp'', JStr ''b'')],
            JObj [(''msg'', JStr ''x''), (''timestamp'', JStr '''')],
            JObj [(''timestamp'', JStr ''''), (''msg'', JStr ''y'')]], total = 3\<rparr>"
proof -
  let ?es = "[JObj [(''timestamp'', JStr ''b'')], JObj [(''msg'', JStr ''x'')],
              JObj [(''timestamp'', JStr ''''), (''msg'', JStr ''y'')]]"
  let ?d = "[(''msg'', JStr ''x'')]"
  let ?d' = "[(''msg'', JStr ''x''), (''timestamp'', JStr '''')]"
  have h1: "(1::nat) < length ?es" by simp
  have h2: "?es ! 1 = JObj ?d" by simp
  have h3: "map_of ?d ''timestamp'' = None" by simp
  have h4: "map_of ?d' ''timestamp'' = Some (JStr '''')" by simp
  have order: "events_order ?es = Inr [0, 1, 2]" by code_simp
  note inst = explicit_empty_timestamp_sorts_like_missing [OF h1 h2 h3 h4]
  from inst have same: "events_order (?es[1 := JObj ?d']) = events_order ?es" by blast
  from inst have "get_logs (File (Inr (JArr (?es[1 := JObj ?d']))))
      = map_sum id (\<lambda>p. \<lparr>events = map ((!) (?es[1 := JObj ?d'])) p, total = length p\<rparr>)
          (events_order ?es)" by blast
  then have run: "get_logs (File (Inr (JArr (?es[1 := JObj ?d']))))
      = Inr \<lparr>events =
           [JObj [(''timestamp'', JStr ''b'')],
            JObj [(''msg'', JStr ''x''), (''timestamp'', JStr '''')],
            JObj [(''timestamp'', JStr ''''), (''msg'', JStr ''y'')]], total = 3\<rparr>"
    by (simp add: order)
  from h1 h2 h3 h4 same order run show ?thesis by (intro conjI)
qed

subsection \<open>The records and the order of the list returned by \<open>get_images\<close>\<close>

text \<open>
  C5, amended. \<open>_load_images\<close> decides by the name alone: it lists exactly the direct
  entries whose suffix, lowered, is an allowed one, whatever their kind, so a
  subdirectory with such a name is listed like a file. Every other entry is left out
  without an error: it changes neither the result nor whether there is one, and the
  call returns whenever each entry that passes the filter has a modification time that
  can be read and converted. A file named \<open>note.txt\<close> never appears.
\<close>

theorem load_images_filters_by_suffix:
  "load_images (Some (Entries files)) = load_images (Some (Entries (filter qualifies files)))
   \<and> load_images (Some (Entries (map (\<lambda>f. f\<lparr>kind := k f\<rparr>) files)))
       = load_images (Some (Entries files))
   \<and> ((\<forall>f\<in>set files. qualifies f \<longrightarrow> (\<exists>t ts. stat f = Some t \<and> fromtimestamp t = Inr ts))
        \<longrightarrow> (\<exists>items. load_images (Some (Entries files)) = Inr items))
   \<and> (\<forall>items. load_images (Some (Entries files)) = Inr items \<longrightarrow>
          mset (map filename items) = mset (map name (filter qualifies files))
          \<and> (\<forall>item\<in>set items.
                lower (suffix (filename item)) \<in> set allowed_suffixes
                \<and> filename item \<noteq> ''note.txt''))"
proof -
  have names: "lower (suffix (filename item)) \<in> set allowed_suffixes
      \<and> filename item \<noteq> ''note.txt''"
    if "load_images (Some (Entries files)) = Inr items" "item \<in> set items" for items item
  proof -
    from load_images_origin [OF that] obtain f
      where "qualifies f" "filename item = name f" by auto
    then have "lower (suffix (filename item)) \<in> set allowed_suffixes"
      by (simp add: qualifies_def)
    then show ?thesis using note_txt_excluded by auto
  qed
  show ?thesis
    using load_images_filter [of files] load_images_kind [of k files]
      load_images_defined [of files] load_images_filenames [of files] names
    by blast
qed

theorem load_images_filters_by_suffix_witness:
  "load_images (Some (Entries
      [\<lparr>name = ''cam1.JPG'', kind = RegularFile, stat = Some 1704067200000000\<rparr>,
       \<lparr>name = ''note.txt'', kind = RegularFile, stat = Some 1704153600000000\<rparr>,
       \<lparr>name = ''thumbs'', kind = Subdirectory, stat = Some 1704153600000000\<rparr>,
       \<lparr>name = ''broken'', kind = OtherEntry, stat = None\<rparr>]))
     = Inr [\<lparr>filename = ''cam1.JPG'', url = ''/static/images/cam1.JPG'',
               timestamp = ''2024-01-01T00:00:00+00:00''\<rparr>]
   \<and> load_images (Some (Entries (filter qualifies
      [\<lparr>name = ''cam1.JPG'', kind = RegularFile, stat = Some 1704067200000000\<rparr>,
       \<lparr>name = ''note.txt'', kind = RegularFile, stat = Some 1704153600000000\<rparr>,
       \<lparr>name = ''thumbs'', kind = Subdirectory, stat = Some 1704153600000000\<rparr>,
       \<lparr>name = ''broken'', kind = OtherEntry, stat = None\<rparr>])))
     = Inr [\<lparr>filename = ''cam1.JPG'', url = ''/static/images/cam1.JPG'',
               timestamp = ''2024-01-01T00:00:00+00:00''\<rparr>]
   \<and> mset (map filename
        [\<lparr>filename = ''cam1.JPG'', url = ''/static/images/cam1.JPG'',
            timestamp = ''2024-01-01T00:00:00+00:00''\<rparr>])
     = mset (map name (filter qualifies
      [\<lparr>name = ''cam1.JPG'', kind = RegularFile, stat = Some 1704067200000000\<rparr>,
       \<lparr>name = ''note.txt'', kind = RegularFile, stat = Some 1704153600000000\<rparr>,
       \<lparr>name = ''thumbs'', kind = Subdirectory, stat = Some 1704153600000000\<rparr>,
       \<lparr>name = ''broken'', kind = OtherEntry, stat = None\<rparr>]))
   \<and> filter qualifies
      [\<lparr>name = ''cam1.JPG'', kind = RegularFile, stat = Some 1704067200000000\<rparr>,
       \<lparr>name = ''note.txt'', kind = RegularFile, stat = Some 1704153600000000\<rparr>,
       \<lparr>name = ''thumbs'', kind = Subdirectory, stat = Some 1704153600000000\<rparr>,
       \<lparr>name = ''broken'', kind = OtherEntry, stat = None\<rparr>]
     = [\<lparr>name = ''cam1.JPG'', kind = RegularFile, stat = Some 1704067200000000\<rparr>]"
proof -
  let ?files = "[\<lparr>name = ''cam1.JPG'', kind = RegularFile, stat = Some 1704067200000000\<rparr>,
       \<lparr>name = ''note.txt'', kind = RegularFile, stat = Some 1704153600000000\<rparr>,
       \<lparr>name = ''thumbs'', kind = Subdirectory, stat = Some 1704153600000000\<rparr>,
       \<lparr>name = ''broken'', kind = OtherEntry, stat = None\<rparr>]"
  let ?items = "[\<lparr>filename = ''cam1.JPG'', url = ''/static/images/cam1.JPG'',
               timestamp = ''2024-01-01T00:00:00+00:00''\<rparr>]"
  have run: "load_images (Some (Entries ?files)) = Inr ?items" by code_simp
  note inst = load_images_filters_by_suffix [of ?files]
  from inst have "load_images (Some (Entries ?files))
      = load_images (Some (Entries (filter qualifies ?files)))" by (rule conjunct1)
  with run have filtered: "load_images (Some (Entries (filter qualifies ?files))) = Inr ?items"
    by simp
  from inst have "\<forall>items. load_images (Some (Entries ?files)) = Inr items \<longrightarrow>
          mset (map filename items) = mset (map name (filter qualifies ?files))
          \<and> (\<forall>item\<in>set items.
                lower (suffix (filename item)) \<in> set allowed_suffixes
                \<and> filename item \<noteq> ''note.txt'')" by blast
  with run have names: "mset (map filename ?items) = mset (map name (filter qualifies ?files))"
    by blast
  have kept: "filter qualifies ?files
      = [\<lparr>name = ''cam1.JPG'', kind = RegularFile, stat = Some 1704067200000000\<rparr>]"
    by code_simp
  from run filtered names kept show ?thesis by (intro conjI)
qed

text \<open>
  C5 as stated, with every subdirectory excluded, fails: a subdirectory whose name ends
  in an allowed suffix passes the filter, since the loop never asks for the kind of an
  entry, and is listed.
\<close>

theorem subdirectory_listed_counterexample:
  "load_images (Some (Entries
      [\<lparr>name = ''archive.png'', kind = Subdirectory, stat = Some 1704067200000000\<rparr>]))
     = Inr [\<lparr>filename = ''archive.png'', url = ''/static/images/archive.png'',
               timestamp = ''2024-01-01T00:00:00+00:00''\<rparr>]"
  by code_simp



text \<open>
  C7. Whatever the order in which the directory is enumerated, the list that
  \<open>_load_images\<close> returns (and \<open>get_images\<close> passes on) holds the records of the scan
  sorted by timestamp descending under the order of strings, and stably: records with
  one timestamp keep the order of the scan. The sequence of timestamps is the same for
  every enumeration of the same entries.
\<close>

theorem load_images_sorted_by_timestamp:
  assumes "load_images (Some (Entries files)) = Inr items"
  shows "get_images (Some (Entries files))
           = Inr \<lparr>images = items, total_images = length items\<rparr>
         \<and> sorted_wrt (\<lambda>a b. timestamp b \<le> timestamp a) items
         \<and> (\<exists>unsorted. scan files [] = Inr unsorted
               \<and> mset items = mset unsorted
               \<and> (\<forall>t. filter (\<lambda>i. timestamp i = t) items
                        = filter (\<lambda>i. timestamp i = t) unsorted))
         \<and> (\<forall>files'. mset files' = mset files \<longrightarrow>
               (\<exists>items'. load_images (Some (Entries files')) = Inr items'
                  \<and> map timestamp items' = map timestamp items))"
proof -
  from load_images_Inr [OF assms] obtain its
    where its: "scan files [] = Inr its"
      and items: "items = rev (sort_key timestamp (rev its))" by blast
  have "get_images (Some (Entries files))
      = Inr \<lparr>images = items, total_images = length items\<rparr>"
    by (simp add: get_images_load assms)
  moreover have "sorted_wrt (\<lambda>a b. timestamp b \<le> timestamp a) items"
    unfolding items by (rule desc_sorted)
  moreover have "mset items = mset its"
    unfolding items by (rule desc_mset)
  moreover have "\<forall>t. filter (\<lambda>i. timestamp i = t) items = filter (\<lambda>i. timestamp i = t) its"
    unfolding items by (simp add: desc_stable)
  moreover have "\<exists>items'. load_images (Some (Entries files')) = Inr items'
      \<and> map timestamp items' = map timestamp items" if "mset files' = mset files" for files'
  proof -
    from scan_perm [OF that its] obtain its'
      where its': "scan files' [] = Inr its'" and perm: "mset its' = mset its" by blast
    have "map timestamp (rev (sort_key timestamp (rev its')))
        = map timestamp (rev (sort_key timestamp (rev its)))"
      using perm by (rule desc_keys_mset)
    with load_images_scan [OF its'] items show ?thesis by simp
  qed
  ultimately show ?thesis using its by blast
qed

theorem load_images_sorted_by_timestamp_witness:
  "load_images (Some (Entries
      [\<lparr>name = ''cam1.jpg'', kind = RegularFile, stat = Some 1704067200000000\<rparr>,
       \<lparr>name = ''cam3.gif'', kind = RegularFile, stat = Some 1704153600000000\<rparr>,
       \<lparr>name = ''cam2.png'', kind = RegularFile, stat = Some 1704153600000000\<rparr>]))
     = Inr
      [\<lparr>filename = ''cam3.gif'', url = ''/static/images/cam3.gif'',
          timestamp = ''2024-01-02T00:00:00+00:00''\<rparr>,
       \<lparr>filename = ''cam2.png'', url = ''/static/images/cam2.png'',
          timestamp = ''2024-01-02T00:00:00+00:00''\<rparr>,
       \<lparr>filename = ''cam1.jpg'', url = ''/static/images/cam1.jpg'',
          timestamp = ''2024-01-01T00:00:00+00:00''\<rparr>]
   \<and> sorted_wrt (\<lambda>a b. timestamp b \<le> timestamp a)
      [\<lparr>filename = ''cam3.gif'', url = ''/static/images/cam3.gif'',
          timestamp = ''2024-01-02T00:00:00+00:00''\<rparr>,
       \<lparr>filename = ''cam2.png'', url = ''/static/images/cam2.png'',
          timestamp = ''2024-01-02T00:00:00+00:00''\<rparr>,
       \<lparr>filename = ''cam1.jpg'', url = ''/static/images/cam1.jpg'',
          timestamp = ''2024-01-01T00:00:00+00:00''\<rparr>]
   \<and> get_images (Some (Entries
      [\<lparr>name = ''cam1.jpg'', kind = RegularFile, stat = Some 1704067200000000\<rparr>,
       \<lparr>name = ''cam3.gif'', kind = RegularFile, stat = Some 1704153600000000\<rparr>,
       \<lparr>name = ''cam2.png'', kind = RegularFile, stat = Some 1704153600000000\<rparr>]))
     = Inr \<lparr>images =
      [\<lparr>filename = ''cam3.gif'', url = ''/static/images/cam3.gif'',
          timestamp = ''2024-01-02T00:00:00+00:00''\<rparr>,
       \<lparr>filename = ''cam2.png'', url = ''/static/images/cam2.png'',
          timestamp = ''2024-01-02T00:00:00+00:00''\<rparr>,
       \<lparr>filename = ''cam1.jpg'', url = ''/static/images/cam1.jpg'',
          timestamp = ''2024-01-01T00:00:00+00:00''\<rparr>], total_images = 3\<rparr>"
proof -
  let ?files = "[\<lparr>name = ''cam1.jpg'', kind = RegularFile, stat = Some 1704067200000000\<rparr>,
       \<lparr>name = ''cam3.gif'', kind = RegularFile, stat = Some 1704153600000000\<rparr>,
       \<lparr>name = ''cam2.png'', kind = RegularFile, stat = Some 1704153600000000\<rparr>]"
  let ?items = "[\<lparr>filename = ''cam3.gif'', url = ''/static/images/cam3.gif'',
          timestamp = ''2024-01-02T00:00:00+00:00''\<rparr>,
       \<lparr>filename = ''cam2.png'', url = ''/static/images/cam2.png'',
          timestamp = ''2024-01-02T00:00:00+00:00''\<rparr>,
       \<lparr>filename = ''cam1.jpg'', url = ''/static/images/cam1.jpg'',
          timestamp = ''2024-01-01T00:00:00+00:00''\<rparr>]"
  have h: "load_images (Some (Entries ?files)) = Inr ?items" by code_simp
  note inst = load_images_sorted_by_timestamp [OF h]
  from inst have c1: "get_images (Some (Entries ?files))
      = Inr \<lparr>images = ?items, total_images = length ?items\<rparr>" by (rule conjunct1)
  from inst have c2: "sorted_wrt (\<lambda>a b. timestamp b \<le> timestamp a) ?items" by blast
  from c1 have c3: "get_images (Some (Entries ?files))
      = Inr \<lparr>images = ?items, total_images = 3\<rparr>" by simp
  from h c2 c3 show ?thesis by (intro conjI)
qed




end
